theory Spec2Isabelle
  imports Main "HOL-Library.Word"
begin

section \<open>The sketch MP3LightShow.ino as state-passing functions\<close>

text \<open>
  The sketch is single threaded. Its C functions become functions on a record of the
  global variables and of the devices they drive. Every call that leaves the sketch
  (serial output, the MP3 player, the timer, the pins, \<open>delay\<close>) is appended to the
  log \<open>out\<close>, in program order, so that the order and the number of calls can be stated.
\<close>

subsection \<open>Data\<close>

text \<open>The two arguments \<open>digitalWrite\<close> is given: \<open>HIGH\<close> and \<open>LOW\<close>.\<close>

datatype level = LOW | HIGH

text \<open>
  The functions handed to \<open>t.after\<close> as function pointers. The constructor names the
  function: \<open>LasersWarmup\<close> stands for \<open>lightShow_LasersWarmup\<close>, and so on.
\<close>

datatype callback =
  LasersWarmup | LEDOn | LasersOn | Pause | LEDOff | Stop | PlayTrack2

text \<open>The calls that leave the sketch.\<close>

datatype io =
    SerialPrint string
  | SerialPrintln string
  | SerialPrintDec "8 word"
  | PlayMP3 string "32 word"
  | TimerAfter nat callback
  | DigitalWrite int level
  | Delay nat

text \<open>
  The globals \<open>isLightShowPlaying\<close> and \<open>isAutoStartEnabled\<close>, the output pins, the
  millisecond clock, the events the timer \<open>t\<close> holds (deadline and callback, in
  registration order), the number of \<open>playMP3\<close> calls made so far, and the log.
  The globals \<open>timerEvent\<close>, \<open>laserEvent\<close> and \<open>ledEvent\<close> are never read or written.
\<close>

record sketch =
  isLightShowPlaying :: bool
  isAutoStartEnabled :: bool
  pins :: "int \<Rightarrow> level"
  millis :: nat
  pending :: "(nat \<times> callback) list"
  plays :: nat
  out :: "io list"

text \<open>\<open>int laser = 5; int led = 9;\<close> Neither is assigned again.\<close>

definition laser :: int where
  "laser = 5"

definition led :: int where
  "led = 9"

subsection \<open>The library calls\<close>

definition digitalWrite :: "int \<Rightarrow> level \<Rightarrow> sketch \<Rightarrow> sketch" where
  "digitalWrite pin v s =
     s\<lparr>pins := (pins s)(pin := v), out := out s @ [DigitalWrite pin v]\<rparr>"

text \<open>\<open>delay\<close> blocks: the clock moves on and nothing else happens.\<close>

definition delay :: "nat \<Rightarrow> sketch \<Rightarrow> sketch" where
  "delay ms s = s\<lparr>millis := millis s + ms, out := out s @ [Delay ms]\<rparr>"

definition Serial_print :: "string \<Rightarrow> sketch \<Rightarrow> sketch" where
  "Serial_print str s = s\<lparr>out := out s @ [SerialPrint str]\<rparr>"

definition Serial_println :: "string \<Rightarrow> sketch \<Rightarrow> sketch" where
  "Serial_println str s = s\<lparr>out := out s @ [SerialPrintln str]\<rparr>"

definition Serial_print_dec :: "8 word \<Rightarrow> sketch \<Rightarrow> sketch" where
  "Serial_print_dec n s = s\<lparr>out := out s @ [SerialPrintDec n]\<rparr>"

text \<open>
  \<open>MP3player.playMP3\<close> belongs to the SFEMP3Shield library. Its status code is an input
  of the model: \<open>rc n\<close> is the code the library returns to the call number \<open>n\<close>
  (counting from 0), so a theorem for every \<open>rc\<close> holds whatever the player answers.
\<close>

definition playMP3 ::
  "(nat \<Rightarrow> 8 word) \<Rightarrow> string \<Rightarrow> 32 word \<Rightarrow> sketch \<Rightarrow> 8 word \<times> sketch" where
  "playMP3 rc trackName offset s =
     (rc (plays s),
      s\<lparr>plays := Suc (plays s), out := out s @ [PlayMP3 trackName offset]\<rparr>)"

text \<open>
  Modelled from the spec: the Timer library behind \<open>t.after\<close> and \<open>t.update\<close>
  (\<open>Timer.h\<close>, \<open>Event.h\<close>) is not part of the sources. The specification's Event
  Scheduler stands in for it: \<open>schedule(delayMs, action)\<close> registers the action to run
  once, \<open>delayMs\<close> after the call; \<open>poll()\<close> fires every pending event whose deadline
  has elapsed (current time \<open>\<ge>\<close> scheduled time), earliest deadline first and ties in
  registration order, and removes it. The specification gives no capacity at which
  \<open>schedule\<close> would refuse an event, so none is modelled. The handle \<open>t.after\<close>
  returns is stored by the sketch in a local that is never read; it is left out.
\<close>

definition t_after :: "nat \<Rightarrow> callback \<Rightarrow> sketch \<Rightarrow> sketch" where
  "t_after period cb s =
     s\<lparr>pending := pending s @ [(millis s + period, cb)],
       out := out s @ [TimerAfter period cb]\<rparr>"

text \<open>Time that passes outside the sketch's own \<open>delay\<close> calls.\<close>

definition tick :: "nat \<Rightarrow> sketch \<Rightarrow> sketch" where
  "tick dt s = s\<lparr>millis := millis s + dt\<rparr>"

subsection \<open>The flicker helper\<close>

text \<open>The body of the \<open>for\<close> loop of \<open>laserFlicker\<close>.\<close>

definition laserFlicker_body :: "sketch \<Rightarrow> sketch" where
  "laserFlicker_body s0 =
     (let s = digitalWrite laser HIGH s0;
          s = delay 25 s;
          s = digitalWrite laser LOW s;
          s = delay 50 s;
          s = digitalWrite laser HIGH s;
          s = delay 25 s;
          s = digitalWrite laser LOW s;
          s = delay 50 s;
          s = digitalWrite laser HIGH s;
          s = delay 25 s;
          s = digitalWrite laser LOW s;
          s = delay 150 s
      in s)"

text \<open>
  \<open>for(int i = 0; i < pulses; i++)\<close>. The counter stays below \<open>pulses\<close>, itself a
  value of the C type \<open>int\<close>, until the loop ends, so \<open>i++\<close> never overflows and
  unbounded integers compute what the machine integers do.
\<close>

function laserFlicker_loop :: "int \<Rightarrow> int \<Rightarrow> sketch \<Rightarrow> sketch" where
  "laserFlicker_loop i pulses s =
     (if i < pulses then laserFlicker_loop (i + 1) pulses (laserFlicker_body s) else s)"
  by pat_completeness auto
termination
  by (relation "measure (\<lambda>(i, pulses, s). nat (pulses - i))") auto

declare laserFlicker_loop.simps [simp del]

definition laserFlicker :: "int \<Rightarrow> sketch \<Rightarrow> sketch" where
  "laserFlicker pulses s = laserFlicker_loop 0 pulses s"

subsection \<open>The stage callbacks\<close>

definition lightShow_LasersWarmup :: "sketch \<Rightarrow> sketch" where
  "lightShow_LasersWarmup s0 =
     (let s = Serial_println ''Warming up lasers'' s0;
          s = laserFlicker 3 s;
          s = delay 1000 s;
          s = laserFlicker 2 s;
          s = delay 500 s;
          s = laserFlicker 5 s;
          s = delay 200 s;
          s = laserFlicker 2 s;
          s = delay 500 s;
          s = laserFlicker 2 s;
          s = delay 50 s;
          s = digitalWrite laser HIGH s;
          s = delay 1000 s;
          s = laserFlicker 3 s;
          s = delay 500 s;
          s = laserFlicker 3 s;
          s = digitalWrite laser HIGH s;
          s = laserFlicker 3 s;
          s = digitalWrite laser HIGH s
      in s)"

definition lightShow_LasersOn :: "sketch \<Rightarrow> sketch" where
  "lightShow_LasersOn s0 =
     (let s = Serial_println ''Lasers ON'' s0;
          s = digitalWrite laser HIGH s
      in s)"

definition lightShow_LEDOn :: "sketch \<Rightarrow> sketch" where
  "lightShow_LEDOn s0 =
     (let s = Serial_println ''LED ON'' s0;
          s = digitalWrite led HIGH s
      in s)"

definition lightShow_LEDOff :: "sketch \<Rightarrow> sketch" where
  "lightShow_LEDOff s0 =
     (let s = Serial_println ''LED OFF'' s0;
          s = digitalWrite led LOW s
      in s)"

definition lightShow_Pause :: "sketch \<Rightarrow> sketch" where
  "lightShow_Pause s0 =
     (let s = Serial_println ''Pausing light show'' s0;
          s = digitalWrite laser LOW s;
          s = digitalWrite led LOW s
      in s)"

definition lightShow_Stop :: "sketch \<Rightarrow> sketch" where
  "lightShow_Stop s0 =
     (let s = s0\<lparr>isLightShowPlaying := False\<rparr>;
          s = Serial_println ''Stopping light show'' s;
          s = digitalWrite laser LOW s;
          s = digitalWrite led LOW s
      in s)"

definition lightShow_PlayTrack2 :: "(nat \<Rightarrow> 8 word) \<Rightarrow> sketch \<Rightarrow> sketch" where
  "lightShow_PlayTrack2 rc s0 =
     (let offset = 0;
          trackName = ''track002.mp3'';
          s = Serial_println ''Playing audio'' s0;
          (result, s) = playMP3 rc trackName offset s;
          s = (if result \<noteq> 0
               then Serial_println '' when trying to play track''
                      (Serial_print_dec result (Serial_print ''Error code: '' s))
               else s)
      in s)"

text \<open>Calling through the function pointer the timer holds.\<close>

fun run_callback :: "(nat \<Rightarrow> 8 word) \<Rightarrow> callback \<Rightarrow> sketch \<Rightarrow> sketch" where
  "run_callback rc LasersWarmup s = lightShow_LasersWarmup s"
| "run_callback rc LEDOn s = lightShow_LEDOn s"
| "run_callback rc LasersOn s = lightShow_LasersOn s"
| "run_callback rc Pause s = lightShow_Pause s"
| "run_callback rc LEDOff s = lightShow_LEDOff s"
| "run_callback rc Stop s = lightShow_Stop s"
| "run_callback rc PlayTrack2 s = lightShow_PlayTrack2 rc s"

text \<open>
  Modelled from the spec: \<open>t.update()\<close> as the scheduler's \<open>poll()\<close>. The events due
  when the call begins are taken out of the pending collection and fired earliest
  deadline first; \<open>sort_key\<close> is a stable insertion sort, so events with one deadline
  fire in the order they were registered.
\<close>

definition t_update :: "(nat \<Rightarrow> 8 word) \<Rightarrow> sketch \<Rightarrow> sketch" where
  "t_update rc s =
     (let due = sort_key fst (filter (\<lambda>e. fst e \<le> millis s) (pending s));
          s' = s\<lparr>pending := filter (\<lambda>e. millis s < fst e) (pending s)\<rparr>
      in fold (\<lambda>e. run_callback rc (snd e)) due s')"

subsection \<open>Starting the show, the command parser and the main loop\<close>

definition lightShow_Start :: "(nat \<Rightarrow> 8 word) \<Rightarrow> sketch \<Rightarrow> sketch" where
  "lightShow_Start rc s0 =
     (let s = s0\<lparr>isLightShowPlaying := True\<rparr>;
          s = Serial_println ''Starting light show sequence...'' s;
          offset = 0;
          stage1 = 7000;
          stage2 = 27500;
          stage3 = 40000;
          stage4 = 44000;
          stage5 = 45000;
          stage6 = 58000;
          stage7 = 110000;
          stage8 = 140000;
          trackName = ''track001.mp3'';
          s = Serial_println ''Playing audio'' s;
          (result, s) = playMP3 rc trackName offset s;
          s = (if result \<noteq> 0
               then Serial_println '' when trying to play track''
                      (Serial_print_dec result (Serial_print ''Error code: '' s))
               else s);
          s = t_after stage1 LasersWarmup s;
          s = t_after stage2 LEDOn s;
          s = t_after stage3 LasersOn s;
          s = t_after stage4 Pause s;
          s = t_after stage5 LEDOn s;
          s = t_after stage5 LasersOn s;
          s = t_after stage6 LEDOff s;
          s = t_after stage7 Stop s;
          s = t_after stage8 PlayTrack2 s
      in s)"

text \<open>\<open>parse_menu(byte key_command)\<close>; the character \<open>'v'\<close> is the byte 118.\<close>

definition parse_menu :: "(nat \<Rightarrow> 8 word) \<Rightarrow> 8 word \<Rightarrow> sketch \<Rightarrow> sketch" where
  "parse_menu rc key_command s =
     (if key_command = 118 then lightShow_Start rc s else s)"

text \<open>
  The statements of \<open>loop()\<close> before its last \<open>if\<close>: the serial input, when a byte is
  available (\<open>key = Some b\<close>), goes to \<open>parse_menu\<close>, then the timer is updated.
  \<open>MP3player.available()\<close>, compiled in only when the player is refilled by polling,
  feeds the decoder and touches nothing of the state modelled here.
\<close>

definition loop_head :: "(nat \<Rightarrow> 8 word) \<Rightarrow> 8 word option \<Rightarrow> sketch \<Rightarrow> sketch" where
  "loop_head rc key s0 =
     (let s = (case key of Some b \<Rightarrow> parse_menu rc b s0 | None \<Rightarrow> s0);
          s = t_update rc s
      in s)"

text \<open>The condition of the last \<open>if\<close> of \<open>loop()\<close>.\<close>

definition auto_start_due :: "sketch \<Rightarrow> bool" where
  "auto_start_due s = (isLightShowPlaying s = False \<and> isAutoStartEnabled s = True)"

definition loop :: "(nat \<Rightarrow> 8 word) \<Rightarrow> 8 word option \<Rightarrow> sketch \<Rightarrow> sketch" where
  "loop rc key s0 =
     (let s = loop_head rc key s0;
          s = (if auto_start_due s
               then (lightShow_Start rc s)\<lparr>isAutoStartEnabled := False\<rparr>
               else s)
      in s)"

text \<open>
  The state in which \<open>loop()\<close> runs for the first time: the initialisers of the globals
  (\<open>isAutoStartEnabled = true\<close>) and the assignment \<open>isLightShowPlaying = false\<close> of
  \<open>setup()\<close>. The other statements of \<open>setup()\<close> set pin modes, print a banner and
  initialise the SD card and the player; they either halt the board or leave these
  variables alone. The log starts empty, at the first \<open>loop()\<close>.
\<close>

definition boot :: sketch where
  "boot = \<lparr>isLightShowPlaying = False, isAutoStartEnabled = True, pins = (\<lambda>p. LOW),
           millis = 0, pending = [], plays = 0, out = []\<rparr>"

text \<open>
  A run of the board: before each iteration of \<open>loop()\<close> some time \<open>dt\<close> passes and a
  byte may have arrived on the serial line.
\<close>

fun run :: "(nat \<Rightarrow> 8 word) \<Rightarrow> (nat \<times> 8 word option) list \<Rightarrow> sketch \<Rightarrow> sketch" where
  "run rc [] s = s"
| "run rc ((dt, key) # ins) s = run rc ins (loop rc key (tick dt s))"

text \<open>For each iteration of a run, whether the last \<open>if\<close> of \<open>loop()\<close> was entered.\<close>

fun auto_starts ::
  "(nat \<Rightarrow> 8 word) \<Rightarrow> (nat \<times> 8 word option) list \<Rightarrow> sketch \<Rightarrow> bool list" where
  "auto_starts rc [] s = []"
| "auto_starts rc ((dt, key) # ins) s =
     auto_start_due (loop_head rc key (tick dt s))
       # auto_starts rc ins (loop rc key (tick dt s))"

subsection \<open>Reading the log\<close>

text \<open>What a call appended to the log.\<close>

definition emitted :: "sketch \<Rightarrow> sketch \<Rightarrow> io list" where
  "emitted s s' = drop (length (out s)) (out s')"

text \<open>The calls that reach the player, the timer or the pins, or that block.\<close>

fun is_device :: "io \<Rightarrow> bool" where
  "is_device (SerialPrint str) = False"
| "is_device (SerialPrintln str) = False"
| "is_device (SerialPrintDec n) = False"
| "is_device (PlayMP3 trackName offset) = True"
| "is_device (TimerAfter period cb) = True"
| "is_device (DigitalWrite pin v) = True"
| "is_device (Delay ms) = True"

fun is_timer_after :: "io \<Rightarrow> bool" where
  "is_timer_after (TimerAfter period cb) = True"
| "is_timer_after e = False"

text \<open>The state with the serial output erased from the log.\<close>

definition lights :: "sketch \<Rightarrow> sketch" where
  "lights s = s\<lparr>out := filter is_device (out s)\<rparr>"

text \<open>A player that reports success (code 0) to every call.\<close>

definition always_ok :: "nat \<Rightarrow> 8 word" where
  "always_ok n = 0"

section \<open>Auxiliary facts\<close>

subsection \<open>Unfolding the loop of the flicker helper\<close>

lemmas io_defs =
  digitalWrite_def delay_def Serial_print_def Serial_println_def Serial_print_dec_def
  playMP3_def t_after_def

lemma laserFlicker_loop_step:
  "i < pulses \<Longrightarrow>
   laserFlicker_loop i pulses s = laserFlicker_loop (i + 1) pulses (laserFlicker_body s)"
  by (subst laserFlicker_loop.simps) simp

lemma laserFlicker_loop_done: "\<not> i < pulses \<Longrightarrow> laserFlicker_loop i pulses s = s"
  by (subst laserFlicker_loop.simps) simp

subsection \<open>What the flicker helper and the callbacks leave alone\<close>

lemma laserFlicker_body_frame:
  "isLightShowPlaying (laserFlicker_body s) = isLightShowPlaying s"
  "isAutoStartEnabled (laserFlicker_body s) = isAutoStartEnabled s"
  "pending (laserFlicker_body s) = pending s"
  "plays (laserFlicker_body s) = plays s"
  by (simp_all add: laserFlicker_body_def io_defs)

lemma laserFlicker_loop_frame:
  "isLightShowPlaying (laserFlicker_loop i pulses s) = isLightShowPlaying s \<and>
   isAutoStartEnabled (laserFlicker_loop i pulses s) = isAutoStartEnabled s \<and>
   pending (laserFlicker_loop i pulses s) = pending s \<and>
   plays (laserFlicker_loop i pulses s) = plays s"
proof (induction i pulses s rule: laserFlicker_loop.induct)
  case (1 i pulses s)
  show ?case
  proof (cases "i < pulses")
    case True
    with 1 show ?thesis
      by (simp add: laserFlicker_loop_step laserFlicker_body_frame)
  next
    case False
    then show ?thesis by (simp add: laserFlicker_loop_done)
  qed
qed

lemma laserFlicker_frame:
  "isLightShowPlaying (laserFlicker pulses s) = isLightShowPlaying s"
  "isAutoStartEnabled (laserFlicker pulses s) = isAutoStartEnabled s"
  "pending (laserFlicker pulses s) = pending s"
  "plays (laserFlicker pulses s) = plays s"
  by (simp_all add: laserFlicker_def laserFlicker_loop_frame)

lemma io_frame:
  "isLightShowPlaying (digitalWrite pin v s) = isLightShowPlaying s"
  "isAutoStartEnabled (digitalWrite pin v s) = isAutoStartEnabled s"
  "pending (digitalWrite pin v s) = pending s"
  "isLightShowPlaying (delay ms s) = isLightShowPlaying s"
  "isAutoStartEnabled (delay ms s) = isAutoStartEnabled s"
  "pending (delay ms s) = pending s"
  "isLightShowPlaying (Serial_println str s) = isLightShowPlaying s"
  "isAutoStartEnabled (Serial_println str s) = isAutoStartEnabled s"
  "pending (Serial_println str s) = pending s"
  by (simp_all add: io_defs)

lemma LasersWarmup_frame:
  "isLightShowPlaying (lightShow_LasersWarmup s) = isLightShowPlaying s"
  "isAutoStartEnabled (lightShow_LasersWarmup s) = isAutoStartEnabled s"
  "pending (lightShow_LasersWarmup s) = pending s"
  by (simp_all add: lightShow_LasersWarmup_def Let_def io_frame laserFlicker_frame)

lemma PlayTrack2_frame:
  "isLightShowPlaying (lightShow_PlayTrack2 rc s) = isLightShowPlaying s"
  "isAutoStartEnabled (lightShow_PlayTrack2 rc s) = isAutoStartEnabled s"
  "pending (lightShow_PlayTrack2 rc s) = pending s"
  by (simp_all add: lightShow_PlayTrack2_def Let_def io_defs)

lemma run_callback_auto:
  "isAutoStartEnabled (run_callback rc cb s) = isAutoStartEnabled s"
  by (cases cb)
     (simp_all add: LasersWarmup_frame PlayTrack2_frame lightShow_LEDOn_def
        lightShow_LasersOn_def lightShow_Pause_def lightShow_LEDOff_def lightShow_Stop_def
        Let_def io_defs)

lemma fold_callbacks_auto:
  "isAutoStartEnabled (fold (\<lambda>e. run_callback rc (snd e)) es s) = isAutoStartEnabled s"
  by (induction es arbitrary: s) (simp_all add: run_callback_auto)

lemma t_update_auto: "isAutoStartEnabled (t_update rc s) = isAutoStartEnabled s"
  by (simp add: t_update_def Let_def fold_callbacks_auto)

subsection \<open>The effects of \<open>lightShow_Start\<close>\<close>

lemma Start_flags:
  "isLightShowPlaying (lightShow_Start rc s) = True"
  "isAutoStartEnabled (lightShow_Start rc s) = isAutoStartEnabled s"
  by (simp_all add: lightShow_Start_def Let_def io_defs)

lemma Start_pending:
  "pending (lightShow_Start rc s) = pending s @
     [(millis s + 7000, LasersWarmup), (millis s + 27500, LEDOn),
      (millis s + 40000, LasersOn), (millis s + 44000, Pause),
      (millis s + 45000, LEDOn), (millis s + 45000, LasersOn),
      (millis s + 58000, LEDOff), (millis s + 110000, Stop),
      (millis s + 140000, PlayTrack2)]"
  by (simp add: lightShow_Start_def Let_def io_defs)

lemma Start_emitted:
  "emitted s (lightShow_Start rc s) =
     [SerialPrintln ''Starting light show sequence...'', SerialPrintln ''Playing audio'',
      PlayMP3 ''track001.mp3'' 0] @
     (if rc (plays s) \<noteq> 0
      then [SerialPrint ''Error code: '', SerialPrintDec (rc (plays s)),
            SerialPrintln '' when trying to play track'']
      else []) @
     [TimerAfter 7000 LasersWarmup, TimerAfter 27500 LEDOn, TimerAfter 40000 LasersOn,
      TimerAfter 44000 Pause, TimerAfter 45000 LEDOn, TimerAfter 45000 LasersOn,
      TimerAfter 58000 LEDOff, TimerAfter 110000 Stop, TimerAfter 140000 PlayTrack2]"
  by (simp add: emitted_def lightShow_Start_def Let_def io_defs)

subsection \<open>The flag \<open>isAutoStartEnabled\<close> along a run\<close>

lemma parse_menu_auto: "isAutoStartEnabled (parse_menu rc b s) = isAutoStartEnabled s"
  by (simp add: parse_menu_def Start_flags)

lemma loop_head_auto: "isAutoStartEnabled (loop_head rc key s) = isAutoStartEnabled s"
  by (cases key) (simp_all add: loop_head_def Let_def t_update_auto parse_menu_auto)

lemma loop_auto:
  "isAutoStartEnabled (loop rc key s) =
     (isAutoStartEnabled s \<and> isLightShowPlaying (loop_head rc key s))"
  by (auto simp add: loop_def Let_def auto_start_due_def loop_head_auto)

lemma tick_auto: "isAutoStartEnabled (tick dt s) = isAutoStartEnabled s"
  by (simp add: tick_def)

lemma auto_starts_disabled:
  "\<not> isAutoStartEnabled s \<Longrightarrow> auto_starts rc ins s = replicate (length ins) False"
proof (induction ins arbitrary: s)
  case Nil
  show ?case by simp
next
  case (Cons i ins)
  obtain dt key where i: "i = (dt, key)" by (cases i)
  from Cons.prems have off: "\<not> isAutoStartEnabled (loop rc key (tick dt s))"
    by (simp add: loop_auto tick_auto)
  from Cons.prems have "\<not> auto_start_due (loop_head rc key (tick dt s))"
    by (simp add: auto_start_due_def loop_head_auto tick_auto)
  with Cons.IH [OF off] show ?case by (simp add: i)
qed

lemma auto_starts_at_most_once:
  "length (filter (\<lambda>b. b) (auto_starts rc ins s)) \<le> 1"
proof (induction ins arbitrary: s)
  case Nil
  show ?case by simp
next
  case (Cons i ins)
  obtain dt key where i: "i = (dt, key)" by (cases i)
  show ?case
  proof (cases "auto_start_due (loop_head rc key (tick dt s))")
    case True
    then have "\<not> isAutoStartEnabled (loop rc key (tick dt s))"
      by (simp add: loop_auto auto_start_due_def)
    then have "auto_starts rc ins (loop rc key (tick dt s)) = replicate (length ins) False"
      by (rule auto_starts_disabled)
    with True show ?thesis by (simp add: i)
  next
    case False
    with Cons.IH [of "loop rc key (tick dt s)"] show ?thesis by (simp add: i)
  qed
qed

lemma t_update_idle: "pending s = [] \<Longrightarrow> t_update rc s = s"
  by (simp add: t_update_def)

lemma boot_first_iteration:
  "key \<noteq> Some 118 \<Longrightarrow> auto_start_due (loop_head rc key (tick dt boot))"
  by (cases key)
     (simp_all add: loop_head_def Let_def parse_menu_def t_update_idle tick_def boot_def
        auto_start_due_def)


subsection \<open>Erasing the serial output commutes with the sketch\<close>

lemma lights_idem: "lights (lights s) = lights s"
  by (simp add: lights_def)

lemma lights_fields:
  "isLightShowPlaying (lights s) = isLightShowPlaying s"
  "isAutoStartEnabled (lights s) = isAutoStartEnabled s"
  "pending (lights s) = pending s"
  "millis (lights s) = millis s"
  "plays (lights s) = plays s"
  "pins (lights s) = pins s"
  by (simp_all add: lights_def)

lemma lights_device:
  "lights (digitalWrite pin v s) = digitalWrite pin v (lights s)"
  "lights (delay ms s) = delay ms (lights s)"
  "lights (t_after period cb s) = t_after period cb (lights s)"
  by (simp_all add: lights_def io_defs)

lemma lights_serial:
  "lights (Serial_print str s) = lights s"
  "lights (Serial_println str s) = lights s"
  "lights (Serial_print_dec n s) = lights s"
  by (simp_all add: lights_def io_defs)

lemma lights_playMP3:
  "lights (snd (playMP3 rc trackName offset s)) = snd (playMP3 rc' trackName offset (lights s))"
  by (simp add: lights_def io_defs)

lemma lights_laserFlicker_body:
  "lights (laserFlicker_body s) = laserFlicker_body (lights s)"
  by (simp add: laserFlicker_body_def Let_def lights_device)

lemma lights_laserFlicker_loop:
  "lights (laserFlicker_loop i pulses s) = laserFlicker_loop i pulses (lights s)"
proof (induction i pulses s rule: laserFlicker_loop.induct)
  case (1 i pulses s)
  show ?case
  proof (cases "i < pulses")
    case True
    with 1 show ?thesis
      by (simp add: laserFlicker_loop_step lights_laserFlicker_body)
  next
    case False
    then show ?thesis by (simp add: laserFlicker_loop_done)
  qed
qed

lemma lights_laserFlicker: "lights (laserFlicker pulses s) = laserFlicker pulses (lights s)"
  by (simp add: laserFlicker_def lights_laserFlicker_loop)

lemma lights_run_callback:
  "lights (run_callback rc cb s) = lights (run_callback always_ok cb (lights s))"
proof (cases cb)
  case LasersWarmup
  then show ?thesis
    by (simp add: lightShow_LasersWarmup_def Let_def lights_device lights_serial
        lights_laserFlicker lights_idem)
next
  case Stop
  then show ?thesis
    by (simp add: lightShow_Stop_def Let_def lights_def io_defs)
next
  case PlayTrack2
  then show ?thesis
    by (simp add: lightShow_PlayTrack2_def Let_def always_ok_def lights_def io_defs)
qed (simp_all add: lightShow_LEDOn_def lightShow_LasersOn_def lightShow_Pause_def
       lightShow_LEDOff_def Let_def lights_device lights_serial lights_idem)

lemma lights_fold_callbacks:
  "lights (fold (\<lambda>e. run_callback rc (snd e)) es s) =
   lights (fold (\<lambda>e. run_callback always_ok (snd e)) es (lights s))"
proof (induction es arbitrary: s rc)
  case Nil
  show ?case by (simp add: lights_idem)
next
  case (Cons e es)
  have "lights (fold (\<lambda>e. run_callback rc (snd e)) (e # es) s) =
        lights (fold (\<lambda>e. run_callback always_ok (snd e)) es
                  (lights (run_callback rc (snd e) s)))"
    using Cons.IH [of rc "run_callback rc (snd e) s"] by simp
  also have "\<dots> = lights (fold (\<lambda>e. run_callback always_ok (snd e)) es
                  (lights (run_callback always_ok (snd e) (lights s))))"
    by (simp add: lights_run_callback [of rc])
  also have "\<dots> = lights (fold (\<lambda>e. run_callback always_ok (snd e)) es
                  (run_callback always_ok (snd e) (lights s)))"
    using Cons.IH [of always_ok "run_callback always_ok (snd e) (lights s)"] by simp
  finally show ?case by simp
qed

lemma lights_t_update: "lights (t_update rc s) = lights (t_update always_ok (lights s))"
proof -
  have upd: "\<And>q. (lights s)\<lparr>pending := q\<rparr> = lights (s\<lparr>pending := q\<rparr>)"
    by (simp add: lights_def)
  show ?thesis
    unfolding t_update_def Let_def lights_fields upd
    by (subst lights_fold_callbacks [of rc], subst (2) lights_fold_callbacks)
       (simp add: lights_idem)
qed

lemma lights_Start:
  "lights (lightShow_Start rc s) = lights (lightShow_Start always_ok (lights s))"
  by (simp add: lightShow_Start_def Let_def always_ok_def lights_def io_defs)

lemma lights_parse_menu:
  "lights (parse_menu rc b s) = lights (parse_menu always_ok b (lights s))"
  by (simp add: parse_menu_def lights_Start [of rc] lights_idem)

lemma lights_loop_head:
  "lights (loop_head rc key s) = lights (loop_head always_ok key (lights s))"
proof -
  have "lights (loop_head rc key s) =
        lights (t_update always_ok
                  (lights (case key of Some b \<Rightarrow> parse_menu rc b s | None \<Rightarrow> s)))"
    by (simp add: loop_head_def Let_def lights_t_update [of rc])
  also have "lights (case key of Some b \<Rightarrow> parse_menu rc b s | None \<Rightarrow> s) =
        lights (case key of Some b \<Rightarrow> parse_menu always_ok b (lights s) | None \<Rightarrow> lights s)"
    by (cases key) (simp_all add: lights_idem lights_parse_menu [of rc])
  finally show ?thesis
    by (simp add: loop_head_def Let_def lights_t_update [of always_ok, symmetric])
qed




lemma auto_start_due_lights: "auto_start_due (lights s) = auto_start_due s"
  by (simp add: auto_start_due_def lights_fields)


lemma lights_loop: "lights (loop rc key s) = lights (loop always_ok key (lights s))"
proof -
  let ?h = "loop_head rc key s" and ?h' = "loop_head always_ok key (lights s)"
  have heads: "lights ?h = lights ?h'"
    by (rule lights_loop_head)
  then have due: "auto_start_due ?h = auto_start_due ?h'"
    by (metis auto_start_due_lights)
  have off: "\<And>t. lights (t\<lparr>isAutoStartEnabled := False\<rparr>) = (lights t)\<lparr>isAutoStartEnabled := False\<rparr>"
    by (simp add: lights_def)
  have "lights (lightShow_Start rc ?h) = lights (lightShow_Start always_ok ?h')"
    by (metis heads lights_Start)
  with heads due show ?thesis
    by (simp add: loop_def Let_def off)
qed


lemma lights_tick: "lights (tick dt s) = tick dt (lights s)"
  by (simp add: lights_def tick_def)


lemma lights_run: "lights (run rc ins s) = lights (run always_ok ins (lights s))"
proof (induction ins arbitrary: s rc)
  case Nil
  show ?case by (simp add: lights_idem)
next
  case (Cons i ins)
  obtain dt key where i: "i = (dt, key)" by (cases i)
  have "lights (run rc (i # ins) s) =
        lights (run always_ok ins (lights (loop rc key (tick dt s))))"
    using Cons.IH [of rc "loop rc key (tick dt s)"] by (simp add: i)
  also have "lights (loop rc key (tick dt s)) = lights (loop always_ok key (tick dt (lights s)))"
    by (simp add: lights_loop [of rc] lights_tick)
  also have "lights (run always_ok ins (lights (loop always_ok key (tick dt (lights s))))) =
        lights (run always_ok (i # ins) (lights s))"
    using Cons.IH [of always_ok "loop always_ok key (tick dt (lights s))"] by (simp add: i)
  finally show ?case .
qed


subsection \<open>The log and the pin after the flicker helper\<close>

lemma laserFlicker_body_out:
  "out (laserFlicker_body s) = out s @
     [DigitalWrite laser HIGH, Delay 25, DigitalWrite laser LOW, Delay 50,
      DigitalWrite laser HIGH, Delay 25, DigitalWrite laser LOW, Delay 50,
      DigitalWrite laser HIGH, Delay 25, DigitalWrite laser LOW, Delay 150]"
  by (simp add: laserFlicker_body_def io_defs)

lemma laserFlicker_loop_out:
  "out (laserFlicker_loop i pulses s) =
     out s @ concat (replicate (nat (pulses - i))
       [DigitalWrite laser HIGH, Delay 25, DigitalWrite laser LOW, Delay 50,
        DigitalWrite laser HIGH, Delay 25, DigitalWrite laser LOW, Delay 50,
        DigitalWrite laser HIGH, Delay 25, DigitalWrite laser LOW, Delay 150])"
proof (induction i pulses s rule: laserFlicker_loop.induct)
  case (1 i pulses s)
  let ?cycle = "[DigitalWrite laser HIGH, Delay 25, DigitalWrite laser LOW, Delay 50,
        DigitalWrite laser HIGH, Delay 25, DigitalWrite laser LOW, Delay 50,
        DigitalWrite laser HIGH, Delay 25, DigitalWrite laser LOW, Delay 150]"
  show ?case
  proof (cases "i < pulses")
    case True
    have n: "Suc (nat (pulses - (i + 1))) = nat (pulses - i)"
      using True by simp
    have "out (laserFlicker_loop i pulses s) =
          out (laserFlicker_loop (i + 1) pulses (laserFlicker_body s))"
      by (simp only: laserFlicker_loop_step [OF True])
    also have "\<dots> = out (laserFlicker_body s) @
                 concat (replicate (nat (pulses - (i + 1))) ?cycle)"
      by (rule "1.IH" [OF True])
    also have "\<dots> = out s @ concat (replicate (Suc (nat (pulses - (i + 1)))) ?cycle)"
      by (simp only: laserFlicker_body_out replicate_Suc concat.simps append_assoc)
    finally show ?thesis
      by (simp only: n)
  next
    case False
    then show ?thesis by (simp add: laserFlicker_loop_done)
  qed
qed

lemma laserFlicker_body_pin: "pins (laserFlicker_body s) laser = LOW"
  by (simp add: laserFlicker_body_def io_defs)

lemma laserFlicker_loop_pin:
  "i < pulses \<Longrightarrow> pins (laserFlicker_loop i pulses s) laser = LOW"
proof (induction i pulses s rule: laserFlicker_loop.induct)
  case (1 i pulses s)
  note step = laserFlicker_loop_step [OF "1.prems"]
  show ?case
  proof (cases "i + 1 < pulses")
    case True
    from "1.IH" [OF "1.prems" True] show ?thesis
      by (simp only: step)
  next
    case False
    then show ?thesis
      by (simp only: step laserFlicker_loop_done [OF False] laserFlicker_body_pin)
  qed
qed

subsection \<open>The callbacks one by one, and the first two iterations from boot\<close>

lemma emitted_callbacks:
  "filter is_device (emitted t (lightShow_LEDOn t)) = [DigitalWrite led HIGH]"
  "filter is_device (emitted t (lightShow_LasersOn t)) = [DigitalWrite laser HIGH]"
  "filter is_device (emitted t (lightShow_Pause t)) =
     [DigitalWrite laser LOW, DigitalWrite led LOW]"
  "filter is_device (emitted t (lightShow_LEDOff t)) = [DigitalWrite led LOW]"
  "filter is_device (emitted t (lightShow_Stop t)) =
     [DigitalWrite laser LOW, DigitalWrite led LOW]"
  "filter is_device (emitted t (lightShow_PlayTrack2 rc t)) = [PlayMP3 ''track002.mp3'' 0]"
  by (simp_all add: emitted_def lightShow_LEDOn_def lightShow_LasersOn_def
      lightShow_Pause_def lightShow_LEDOff_def lightShow_Stop_def lightShow_PlayTrack2_def
      Let_def io_defs)

lemma Stop_clears_flag: "isLightShowPlaying (lightShow_Stop t) = False"
  by (simp add: lightShow_Stop_def Let_def io_defs)

lemma Start_millis: "millis (lightShow_Start rc s) = millis s"
  by (simp add: lightShow_Start_def Let_def io_defs)

lemma boot_auto_started:
  "loop rc None (tick 0 boot) = (lightShow_Start rc boot)\<lparr>isAutoStartEnabled := False\<rparr>"
proof -
  have t: "tick 0 boot = boot"
    by (simp add: tick_def boot_def)
  have h: "loop_head rc None boot = boot"
    by (simp add: loop_head_def Let_def t_update_idle boot_def)
  show ?thesis
    by (simp add: t loop_def h Let_def auto_start_due_def) (simp add: boot_def)
qed

lemma stop_stage_fires:
  "isLightShowPlaying (run rc [(0, None), (110000, None)] boot) = False"
proof -
  let ?s1 = "(lightShow_Start rc boot)\<lparr>isAutoStartEnabled := False\<rparr>"
  let ?s2 = "tick 110000 ?s1"
  have p: "pending ?s2 =
     [(7000, LasersWarmup), (27500, LEDOn), (40000, LasersOn), (44000, Pause),
      (45000, LEDOn), (45000, LasersOn), (58000, LEDOff), (110000, Stop),
      (140000, PlayTrack2)]"
    by (simp add: tick_def Start_pending boot_def)
  have m: "millis ?s2 = 110000"
    by (simp add: tick_def Start_millis boot_def)
  have a: "isAutoStartEnabled ?s2 = False"
    by (simp add: tick_def)
  have u: "isLightShowPlaying (t_update rc ?s2) = False"
    unfolding t_update_def Let_def p m by (simp add: Stop_clears_flag)
  have "isAutoStartEnabled (t_update rc ?s2) = False"
    by (simp only: t_update_auto a)
  with u have "isLightShowPlaying (loop rc None ?s2) = False"
    by (simp add: loop_def loop_head_def Let_def auto_start_due_def)
  then show ?thesis
    by (simp add: boot_auto_started)
qed

lemma boot_first_iteration_iff:
  "auto_start_due (loop_head rc key (tick dt boot)) = (key \<noteq> Some 118)"
proof (cases "key = Some 118")
  case True
  have "isLightShowPlaying (t_update rc (lightShow_Start rc (tick dt boot))) = True"
    by (simp add: t_update_def Let_def Start_pending Start_millis Start_flags tick_def boot_def)
  with True show ?thesis
    by (simp add: loop_head_def Let_def parse_menu_def auto_start_due_def)
next
  case False
  then show ?thesis
    by (simp add: boot_first_iteration)
qed

lemma run_auto_flag:
  "isAutoStartEnabled (run rc ins s) =
     (isAutoStartEnabled s \<and> True \<notin> set (auto_starts rc ins s))"
proof (induction ins arbitrary: s)
  case Nil
  show ?case by simp
next
  case (Cons i ins)
  obtain dt key where i: "i = (dt, key)" by (cases i)
  have "isAutoStartEnabled (loop rc key (tick dt s)) =
          (isAutoStartEnabled s \<and> \<not> auto_start_due (loop_head rc key (tick dt s)))"
    by (auto simp add: loop_auto tick_auto auto_start_due_def loop_head_auto)
  with Cons.IH [of "loop rc key (tick dt s)"] show ?case
    by (auto simp add: i)
qed

lemma loop_not_due:
  "\<not> auto_start_due (loop_head rc key s) \<Longrightarrow> loop rc key s = loop_head rc key s"
  by (simp add: loop_def Let_def)

lemma v_at_boot:
  "isLightShowPlaying (loop rc (Some 118) (tick dt boot)) = True"
  "isAutoStartEnabled (loop rc (Some 118) (tick dt boot)) = True"
  "millis (loop rc (Some 118) (tick dt boot)) = dt"
  "pending (loop rc (Some 118) (tick dt boot)) =
     [(dt + 7000, LasersWarmup), (dt + 27500, LEDOn), (dt + 40000, LasersOn),
      (dt + 44000, Pause), (dt + 45000, LEDOn), (dt + 45000, LasersOn),
      (dt + 58000, LEDOff), (dt + 110000, Stop), (dt + 140000, PlayTrack2)]"
proof -
  have nd: "\<not> auto_start_due (loop_head rc (Some 118) (tick dt boot))"
    by (simp add: boot_first_iteration_iff)
  have l: "loop rc (Some 118) (tick dt boot) =
           t_update rc (lightShow_Start rc (tick dt boot))"
    by (simp add: loop_not_due [OF nd]) (simp add: loop_head_def Let_def parse_menu_def)
  show "isLightShowPlaying (loop rc (Some 118) (tick dt boot)) = True"
    unfolding l
    by (simp add: t_update_def Let_def Start_pending Start_millis Start_flags tick_def boot_def)
  show "isAutoStartEnabled (loop rc (Some 118) (tick dt boot)) = True"
    unfolding l by (simp add: t_update_auto Start_flags tick_def boot_def)
  show "millis (loop rc (Some 118) (tick dt boot)) = dt"
    unfolding l
    by (simp add: t_update_def Let_def Start_pending Start_millis tick_def boot_def)
  show "pending (loop rc (Some 118) (tick dt boot)) =
     [(dt + 7000, LasersWarmup), (dt + 27500, LEDOn), (dt + 40000, LasersOn),
      (dt + 44000, Pause), (dt + 45000, LEDOn), (dt + 45000, LasersOn),
      (dt + 58000, LEDOff), (dt + 110000, Stop), (dt + 140000, PlayTrack2)]"
    unfolding l
    by (simp add: t_update_def Let_def Start_pending Start_millis tick_def boot_def)
qed

lemma tick_fields:
  "isLightShowPlaying (tick dt s) = isLightShowPlaying s"
  "pending (tick dt s) = pending s"
  "millis (tick dt s) = millis s + dt"
  by (simp_all add: tick_def)

lemma deferred_auto_start:
  "auto_start_due (loop_head rc None (tick 110000 (loop rc (Some 118) (tick 0 boot))))"
proof -
  let ?s1 = "loop rc (Some 118) (tick 0 boot)"
  let ?s2 = "tick 110000 ?s1"
  have p: "pending ?s2 =
     [(7000, LasersWarmup), (27500, LEDOn), (40000, LasersOn), (44000, Pause),
      (45000, LEDOn), (45000, LasersOn), (58000, LEDOff), (110000, Stop),
      (140000, PlayTrack2)]"
    by (simp add: tick_fields v_at_boot)
  have m: "millis ?s2 = 110000"
    by (simp add: tick_fields v_at_boot)
  have a: "isAutoStartEnabled ?s2 = True"
    by (simp add: tick_auto v_at_boot)
  have u: "isLightShowPlaying (t_update rc ?s2) = False"
    unfolding t_update_def Let_def p m by (simp add: Stop_clears_flag)
  have "isAutoStartEnabled (t_update rc ?s2) = True"
    by (simp only: t_update_auto a)
  with u show ?thesis
    by (simp add: loop_head_def Let_def auto_start_due_def)
qed

section \<open>Starting the show\<close>

text \<open>
  Claim C2. Every call of \<open>lightShow_Start\<close>, from the idle state as from any other,
  first asks the player for \<open>track001.mp3\<close> at offset 0 and then registers exactly nine
  callbacks with the timer, one for each stage and two for the stage at 45000 ms
  (LED on and lasers on). Serial output apart, these ten calls are all it makes.
\<close>

theorem lightShow_Start_plays_then_registers:
  "filter is_device (emitted s (lightShow_Start rc s)) =
     [PlayMP3 ''track001.mp3'' 0,
      TimerAfter 7000 LasersWarmup, TimerAfter 27500 LEDOn, TimerAfter 40000 LasersOn,
      TimerAfter 44000 Pause, TimerAfter 45000 LEDOn, TimerAfter 45000 LasersOn,
      TimerAfter 58000 LEDOff, TimerAfter 110000 Stop, TimerAfter 140000 PlayTrack2] \<and>
   length (filter is_timer_after (emitted s (lightShow_Start rc s))) = 9 \<and>
   length (pending (lightShow_Start rc s)) = length (pending s) + 9"
  by (simp add: Start_emitted Start_pending)

text \<open>
  Claim C3. The stages \<open>lightShow_Start\<close> registers, with their offsets from the
  moment of the call: laser warm-up at 7000 ms, LED on at 27500 ms, lasers on at
  40000 ms, pause (laser and LED low) at 44000 ms, LED on and lasers on both at
  45000 ms, LED off at 58000 ms, stop at 110000 ms, and play track 2
  (\<open>track002.mp3\<close> at offset 0) at 140000 ms.
\<close>

theorem lightShow_Start_stage_table:
  "pending (lightShow_Start rc s) = pending s @
     [(millis s + 7000, LasersWarmup), (millis s + 27500, LEDOn),
      (millis s + 40000, LasersOn), (millis s + 44000, Pause),
      (millis s + 45000, LEDOn), (millis s + 45000, LasersOn),
      (millis s + 58000, LEDOff), (millis s + 110000, Stop),
      (millis s + 140000, PlayTrack2)] \<and>
   run_callback rc LasersWarmup t = lightShow_LasersWarmup t \<and>
   filter is_device (emitted t (run_callback rc LEDOn t)) = [DigitalWrite led HIGH] \<and>
   filter is_device (emitted t (run_callback rc LasersOn t)) = [DigitalWrite laser HIGH] \<and>
   filter is_device (emitted t (run_callback rc Pause t)) =
     [DigitalWrite laser LOW, DigitalWrite led LOW] \<and>
   filter is_device (emitted t (run_callback rc LEDOff t)) = [DigitalWrite led LOW] \<and>
   filter is_device (emitted t (run_callback rc Stop t)) =
     [DigitalWrite laser LOW, DigitalWrite led LOW] \<and>
   isLightShowPlaying (run_callback rc Stop t) = False \<and>
   filter is_device (emitted t (run_callback rc PlayTrack2 t)) =
     [PlayMP3 ''track002.mp3'' 0]"
  by (simp add: Start_pending emitted_callbacks Stop_clears_flag)

text \<open>
  Claim C4. Whatever status codes the player returns, \<open>lightShow_Start\<close> registers
  all nine stage callbacks and sets the show playing, and no light action is skipped:
  two runs of the board that differ only in the player's status codes differ only in
  their serial output. The flags, the pins, the clock, the pending events and the
  sequence of calls to the player, the timer and the pins are the same, for the start,
  for each callback, for a timer update and for any run of the main loop.
\<close>

theorem playback_status_never_stops_the_show:
  "pending (lightShow_Start rc s) = pending s @
     [(millis s + 7000, LasersWarmup), (millis s + 27500, LEDOn),
      (millis s + 40000, LasersOn), (millis s + 44000, Pause),
      (millis s + 45000, LEDOn), (millis s + 45000, LasersOn),
      (millis s + 58000, LEDOff), (millis s + 110000, Stop),
      (millis s + 140000, PlayTrack2)] \<and>
   isLightShowPlaying (lightShow_Start rc s) = True \<and>
   lights (lightShow_Start rc s) = lights (lightShow_Start rc' s) \<and>
   lights (run_callback rc cb s) = lights (run_callback rc' cb s) \<and>
   lights (t_update rc s) = lights (t_update rc' s) \<and>
   lights (run rc ins s) = lights (run rc' ins s)"
proof -
  have "lights (lightShow_Start rc s) = lights (lightShow_Start rc' s)"
    by (simp only: lights_Start [of rc s] lights_Start [of rc' s])
  moreover have "lights (run_callback rc cb s) = lights (run_callback rc' cb s)"
    by (simp only: lights_run_callback [of rc cb s] lights_run_callback [of rc' cb s])
  moreover have "lights (t_update rc s) = lights (t_update rc' s)"
    by (simp only: lights_t_update [of rc s] lights_t_update [of rc' s])
  moreover have "lights (run rc ins s) = lights (run rc' ins s)"
    by (simp only: lights_run [of rc ins s] lights_run [of rc' ins s])
  ultimately show ?thesis
    by (simp add: Start_pending Start_flags)
qed

text \<open>
  Claim C1 says that \<open>lightShow_Start\<close> does nothing when the show is already playing.
  The function has no such guard. Started at boot and called again through the command
  \<open>'v'\<close> 1000 ms later, while \<open>isLightShowPlaying\<close> is true, it asks for the track a
  second time and registers nine more events: eighteen are pending, the second set
  1000 ms behind the first.
\<close>

theorem second_start_registers_again:
  "isLightShowPlaying (tick 1000 (lightShow_Start rc boot)) = True \<and>
   pending (tick 1000 (lightShow_Start rc boot)) =
     [(7000, LasersWarmup), (27500, LEDOn), (40000, LasersOn), (44000, Pause),
      (45000, LEDOn), (45000, LasersOn), (58000, LEDOff), (110000, Stop),
      (140000, PlayTrack2)] \<and>
   pending (parse_menu rc 118 (tick 1000 (lightShow_Start rc boot))) =
     [(7000, LasersWarmup), (27500, LEDOn), (40000, LasersOn), (44000, Pause),
      (45000, LEDOn), (45000, LasersOn), (58000, LEDOff), (110000, Stop),
      (140000, PlayTrack2),
      (8000, LasersWarmup), (28500, LEDOn), (41000, LasersOn), (45000, Pause),
      (46000, LEDOn), (46000, LasersOn), (59000, LEDOff), (111000, Stop),
      (141000, PlayTrack2)] \<and>
   length (pending (parse_menu rc 118 (tick 1000 (lightShow_Start rc boot)))) = 18 \<and>
   filter is_device (out (parse_menu rc 118 (tick 1000 (lightShow_Start rc boot)))) =
     [PlayMP3 ''track001.mp3'' 0,
      TimerAfter 7000 LasersWarmup, TimerAfter 27500 LEDOn, TimerAfter 40000 LasersOn,
      TimerAfter 44000 Pause, TimerAfter 45000 LEDOn, TimerAfter 45000 LasersOn,
      TimerAfter 58000 LEDOff, TimerAfter 110000 Stop, TimerAfter 140000 PlayTrack2,
      PlayMP3 ''track001.mp3'' 0,
      TimerAfter 7000 LasersWarmup, TimerAfter 27500 LEDOn, TimerAfter 40000 LasersOn,
      TimerAfter 44000 Pause, TimerAfter 45000 LEDOn, TimerAfter 45000 LasersOn,
      TimerAfter 58000 LEDOff, TimerAfter 110000 Stop, TimerAfter 140000 PlayTrack2]"
proof -
  have m: "millis (tick 1000 (lightShow_Start rc boot)) = 1000"
    by (simp add: tick_def lightShow_Start_def Let_def io_defs boot_def)
  have p: "pending (tick 1000 (lightShow_Start rc boot)) =
     [(7000, LasersWarmup), (27500, LEDOn), (40000, LasersOn), (44000, Pause),
      (45000, LEDOn), (45000, LasersOn), (58000, LEDOff), (110000, Stop),
      (140000, PlayTrack2)]"
    by (simp add: tick_def Start_pending boot_def)
  have o1: "out (tick 1000 (lightShow_Start rc boot)) = emitted boot (lightShow_Start rc boot)"
    by (simp add: tick_def emitted_def boot_def)
  have o2: "out (lightShow_Start rc t) = out t @ emitted t (lightShow_Start rc t)" for t
    by (simp add: emitted_def lightShow_Start_def Let_def io_defs)
  have f: "filter is_device (emitted t (lightShow_Start rc t)) =
     [PlayMP3 ''track001.mp3'' 0,
      TimerAfter 7000 LasersWarmup, TimerAfter 27500 LEDOn, TimerAfter 40000 LasersOn,
      TimerAfter 44000 Pause, TimerAfter 45000 LEDOn, TimerAfter 45000 LasersOn,
      TimerAfter 58000 LEDOff, TimerAfter 110000 Stop, TimerAfter 140000 PlayTrack2]" for t
    by (simp add: Start_emitted)
  have "isLightShowPlaying (tick 1000 (lightShow_Start rc boot)) = True"
    by (simp add: tick_def Start_flags)
  moreover have "filter is_device
      (out (parse_menu rc 118 (tick 1000 (lightShow_Start rc boot)))) =
    filter is_device (emitted boot (lightShow_Start rc boot)) @
    filter is_device (emitted (tick 1000 (lightShow_Start rc boot))
       (lightShow_Start rc (tick 1000 (lightShow_Start rc boot))))"
    by (simp add: parse_menu_def o2 [of "tick 1000 (lightShow_Start rc boot)"] o1)
  ultimately show ?thesis
    unfolding f by (simp add: parse_menu_def Start_pending m p)
qed




section \<open>The automatic start\<close>

text \<open>
  Claim C6 says that \<open>loop()\<close> starts the show by itself exactly once in a run, at
  process start. When the command \<open>'v'\<close> arrives in the first iteration the show is
  already playing at the check, so that iteration does not take the automatic start and
  leaves \<open>isAutoStartEnabled\<close> set: a run that ends before the stop stage has no
  automatic start at all, and one that reaches the stop stage takes it then, 110000 ms
  after boot.
\<close>

theorem auto_start_not_at_boot_counterexample:
  "auto_starts always_ok [(0, Some 118), (1000, None)] boot = [False, False] \<and>
   auto_starts always_ok [(0, Some 118), (110000, None)] boot = [False, True] \<and>
   isAutoStartEnabled (run always_ok [(0, Some 118), (1000, None)] boot) = True"
proof -
  have first: "auto_start_due (loop_head always_ok (Some 118) (tick 0 boot)) = False"
    by (simp add: boot_first_iteration_iff)
  let ?s1 = "loop always_ok (Some 118) (tick 0 boot)"
  have "isLightShowPlaying (t_update always_ok (tick 1000 ?s1)) = True"
    by (simp add: t_update_def Let_def tick_fields v_at_boot)
  then have second: "auto_start_due (loop_head always_ok None (tick 1000 ?s1)) = False"
    by (simp add: loop_head_def Let_def auto_start_due_def)
  have third: "auto_start_due (loop_head always_ok None (tick 110000 ?s1)) = True"
    using deferred_auto_start [of always_ok] by simp
  have "True \<notin> set (auto_starts always_ok [(0, Some 118), (1000, None)] boot)"
    by (simp add: first second)
  then have "isAutoStartEnabled (run always_ok [(0, Some 118), (1000, None)] boot) = True"
    by (simp only: run_auto_flag) (simp add: boot_def)
  with first second third show ?thesis
    by simp
qed

text \<open>
  Claim C6, amended. In a run of the board \<open>loop()\<close> starts the show by itself at most
  once. An iteration whose check finds the show not playing and the automatic start
  enabled calls \<open>lightShow_Start\<close> and clears \<open>isAutoStartEnabled\<close>, and no later
  iteration takes the automatic start again, whatever arrives on the serial line and
  also after the stop stage has cleared \<open>isLightShowPlaying\<close>. An iteration whose check
  fails does nothing beyond the serial command and the timer update. The flag
  \<open>isAutoStartEnabled\<close> is cleared by the automatic start and by nothing else. From
  boot the first iteration takes the automatic start exactly when the byte it receives,
  if any, is not \<open>'v'\<close>; after a \<open>'v'\<close> in the first iteration the show is playing and
  the automatic start is still enabled.
\<close>

theorem auto_start_at_most_once:
  "length (filter (\<lambda>b. b) (auto_starts rc ins s)) \<le> 1 \<and>
   isAutoStartEnabled (run rc ins s) =
     (isAutoStartEnabled s \<and> True \<notin> set (auto_starts rc ins s)) \<and>
   (auto_start_due (loop_head rc key (tick dt s)) \<longrightarrow>
      loop rc key (tick dt s) =
        (lightShow_Start rc (loop_head rc key (tick dt s)))\<lparr>isAutoStartEnabled := False\<rparr> \<and>
      auto_starts rc ((dt, key) # ins) s = True # replicate (length ins) False) \<and>
   (\<not> auto_start_due (loop_head rc key' (tick dt' s')) \<longrightarrow>
      loop rc key' (tick dt' s') = loop_head rc key' (tick dt' s') \<and>
      auto_starts rc ((dt', key') # ins) s' =
        False # auto_starts rc ins (loop_head rc key' (tick dt' s'))) \<and>
   auto_start_due (loop_head rc key (tick dt boot)) = (key \<noteq> Some 118) \<and>
   isLightShowPlaying (loop rc (Some 118) (tick dt boot)) = True \<and>
   isAutoStartEnabled (loop rc (Some 118) (tick dt boot)) = True"
proof -
  have once: "length (filter (\<lambda>b. b) (auto_starts rc ins s)) \<le> 1"
    by (rule auto_starts_at_most_once)
  have flag: "isAutoStartEnabled (run rc ins s) =
     (isAutoStartEnabled s \<and> True \<notin> set (auto_starts rc ins s))"
    by (rule run_auto_flag)
  have taken: "loop rc key (tick dt s) =
        (lightShow_Start rc (loop_head rc key (tick dt s)))\<lparr>isAutoStartEnabled := False\<rparr> \<and>
      auto_starts rc ((dt, key) # ins) s = True # replicate (length ins) False"
    if due: "auto_start_due (loop_head rc key (tick dt s))"
  proof -
    from due have off: "\<not> isAutoStartEnabled (loop rc key (tick dt s))"
      by (simp add: loop_auto auto_start_due_def)
    from due have "loop rc key (tick dt s) =
        (lightShow_Start rc (loop_head rc key (tick dt s)))\<lparr>isAutoStartEnabled := False\<rparr>"
      by (simp add: loop_def Let_def)
    with due auto_starts_disabled [OF off, of rc ins] show ?thesis
      by simp
  qed
  have skipped: "loop rc key' (tick dt' s') = loop_head rc key' (tick dt' s') \<and>
      auto_starts rc ((dt', key') # ins) s' =
        False # auto_starts rc ins (loop_head rc key' (tick dt' s'))"
    if nd: "\<not> auto_start_due (loop_head rc key' (tick dt' s'))"
    using nd by (simp add: loop_not_due)
  have boot: "auto_start_due (loop_head rc key (tick dt boot)) = (key \<noteq> Some 118)"
    by (rule boot_first_iteration_iff)
  have v: "isLightShowPlaying (loop rc (Some 118) (tick dt boot)) = True \<and>
           isAutoStartEnabled (loop rc (Some 118) (tick dt boot)) = True"
    by (simp only: v_at_boot)
  from once flag taken skipped boot v show ?thesis
    by blast
qed

theorem auto_start_at_most_once_witness:
  "auto_start_due (loop_head always_ok None (tick 0 boot)) \<and>
   \<not> auto_start_due (loop_head always_ok (Some 118) (tick 1000 (loop always_ok None (tick 0 boot)))) \<and>
   auto_starts always_ok [(0, None), (110000, None), (10, Some 118), (5, None)] boot =
     [True, False, False, False] \<and>
   loop always_ok (Some 118) (tick 1000 (loop always_ok None (tick 0 boot))) =
     loop_head always_ok (Some 118) (tick 1000 (loop always_ok None (tick 0 boot))) \<and>
   isLightShowPlaying (run always_ok [(0, None), (110000, None)] boot) = False \<and>
   isAutoStartEnabled
     (run always_ok [(0, None), (110000, None), (10, Some 118), (5, None)] boot) = False"
proof -
  let ?s' = "loop always_ok None (tick 0 boot)"
  let ?ins = "[(110000 :: nat, None), (10, Some (118 :: 8 word)), (5, None)]"
  note inst = auto_start_at_most_once
    [of always_ok ?ins boot None 0 "Some 118" 1000 ?s']
  from inst have due: "auto_start_due (loop_head always_ok None (tick 0 boot))"
    by simp
  have "isAutoStartEnabled ?s' = False"
    by (simp add: boot_auto_started)
  then have nd: "\<not> auto_start_due (loop_head always_ok (Some 118) (tick 1000 ?s'))"
    by (simp add: auto_start_due_def loop_head_auto tick_auto)
  from inst due have tr: "auto_starts always_ok ((0, None) # ?ins) boot =
      True # replicate (length ?ins) False"
    by blast
  from inst nd have sk: "loop always_ok (Some 118) (tick 1000 ?s') =
      loop_head always_ok (Some 118) (tick 1000 ?s')"
    by blast
  have "isAutoStartEnabled (run always_ok ((0, None) # ?ins) boot) = False"
    unfolding run_auto_flag tr by simp
  with due nd tr sk stop_stage_fires [of always_ok] show ?thesis
    by (simp add: numeral_3_eq_3)
qed

section \<open>The flicker helper and the warm-up\<close>

text \<open>
  Claim C8. \<open>laserFlicker(3)\<close> performs exactly three identical cycles on the laser
  pin, each one HIGH for 25 ms, LOW for 50 ms, HIGH for 25 ms, LOW for 50 ms, HIGH for
  25 ms, LOW for 150 ms: nine writes of HIGH and nine of LOW, the laser LOW at the end,
  and 3 times 325 ms spent.
\<close>

theorem laserFlicker_three_cycles:
  "emitted s (laserFlicker 3 s) =
     [DigitalWrite laser HIGH, Delay 25, DigitalWrite laser LOW, Delay 50,
      DigitalWrite laser HIGH, Delay 25, DigitalWrite laser LOW, Delay 50,
      DigitalWrite laser HIGH, Delay 25, DigitalWrite laser LOW, Delay 150,
      DigitalWrite laser HIGH, Delay 25, DigitalWrite laser LOW, Delay 50,
      DigitalWrite laser HIGH, Delay 25, DigitalWrite laser LOW, Delay 50,
      DigitalWrite laser HIGH, Delay 25, DigitalWrite laser LOW, Delay 150,
      DigitalWrite laser HIGH, Delay 25, DigitalWrite laser LOW, Delay 50,
      DigitalWrite laser HIGH, Delay 25, DigitalWrite laser LOW, Delay 50,
      DigitalWrite laser HIGH, Delay 25, DigitalWrite laser LOW, Delay 150] \<and>
   length (filter (\<lambda>e. e = DigitalWrite laser HIGH) (emitted s (laserFlicker 3 s))) = 9 \<and>
   length (filter (\<lambda>e. e = DigitalWrite laser LOW) (emitted s (laserFlicker 3 s))) = 9 \<and>
   pins (laserFlicker 3 s) laser = LOW \<and>
   millis (laserFlicker 3 s) = millis s + 3 * (25 + 50 + 25 + 50 + 25 + 150)"
proof -
  have n: "nat (3 - 0) = Suc (Suc (Suc 0))" by simp
  have e: "emitted s (laserFlicker 3 s) = concat (replicate (Suc (Suc (Suc 0)))
       [DigitalWrite laser HIGH, Delay 25, DigitalWrite laser LOW, Delay 50,
        DigitalWrite laser HIGH, Delay 25, DigitalWrite laser LOW, Delay 50,
        DigitalWrite laser HIGH, Delay 25, DigitalWrite laser LOW, Delay 150])"
    unfolding emitted_def laserFlicker_def laserFlicker_loop_out n by simp
  have p: "pins (laserFlicker 3 s) laser = LOW"
    by (simp add: laserFlicker_def laserFlicker_loop_pin)
  have m: "millis (laserFlicker 3 s) = millis s + 3 * (25 + 50 + 25 + 50 + 25 + 150)"
    by (simp add: laserFlicker_def laserFlicker_loop_step laserFlicker_loop_done
        laserFlicker_body_def io_defs)
  show ?thesis
    unfolding e using p m by simp
qed

text \<open>
  Claim C9. For every \<open>pulses \<le> 0\<close> the loop of \<open>laserFlicker\<close> is not entered: the
  call returns the state it was given, so it writes no pin, waits for nothing and
  leaves the laser pin as it was.
\<close>

theorem laserFlicker_no_pulses: "pulses \<le> 0 \<Longrightarrow> laserFlicker pulses s = s"
  by (simp add: laserFlicker_def laserFlicker_loop_done)

theorem laserFlicker_no_pulses_witness:
  "(- 2 :: int) \<le> 0 \<and> laserFlicker (- 2) boot = boot \<and>
   out (laserFlicker (- 2) boot) = [] \<and> pins (laserFlicker (- 2) boot) laser = LOW"
  using laserFlicker_no_pulses [of "- 2" boot] by (simp add: boot_def)

text \<open>
  Claim C10. \<open>lightShow_LasersWarmup\<close> always returns, and whatever the state it
  starts in, the last thing it does is write HIGH to the laser pin: the laser is on
  when the warm-up stage is over.
\<close>

theorem LasersWarmup_ends_high:
  "pins (lightShow_LasersWarmup s) laser = HIGH \<and>
   last (out (lightShow_LasersWarmup s)) = DigitalWrite laser HIGH \<and>
   last (filter (\<lambda>e. e = DigitalWrite laser HIGH \<or> e = DigitalWrite laser LOW)
           (out (lightShow_LasersWarmup s))) = DigitalWrite laser HIGH"
  by (simp add: lightShow_LasersWarmup_def Let_def digitalWrite_def)

section \<open>The show flag\<close>

text \<open>
  Claim C7. Of the stage callbacks (laser warm-up, LED on, lasers on, pause, LED off,
  stop, play track 2) only \<open>lightShow_Stop\<close> changes \<open>isLightShowPlaying\<close>, and it
  sets it to false; every other callback leaves the flag as it found it.
\<close>

theorem only_Stop_changes_isLightShowPlaying:
  "isLightShowPlaying (lightShow_LasersWarmup s) = isLightShowPlaying s \<and>
   isLightShowPlaying (lightShow_LEDOn s) = isLightShowPlaying s \<and>
   isLightShowPlaying (lightShow_LasersOn s) = isLightShowPlaying s \<and>
   isLightShowPlaying (lightShow_Pause s) = isLightShowPlaying s \<and>
   isLightShowPlaying (lightShow_LEDOff s) = isLightShowPlaying s \<and>
   isLightShowPlaying (lightShow_PlayTrack2 rc s) = isLightShowPlaying s \<and>
   isLightShowPlaying (lightShow_Stop s) = False"
  by (simp add: LasersWarmup_frame PlayTrack2_frame lightShow_LEDOn_def
        lightShow_LasersOn_def lightShow_Pause_def lightShow_LEDOff_def lightShow_Stop_def
        Let_def io_defs)

end
